theory Spec2Isabelle
  imports Complex_Main
begin

section \<open>Retry with exponential backoff (artkit/model/util/_retry.py)\<close>

text \<open>
  The module wraps an asynchronous connector method so that it is called again after a
  \<open>RateLimitException\<close>, sleeping a growing delay after every such failure.
  The embedding is by explicit state passing. Python floats are modelled as reals
  (no rounding), \<open>asyncio.sleep\<close>, \<open>log.warning\<close> and the execution of a user
  function body are recorded as events in a trace, and \<open>random.random()\<close> reads the
  next value of a fixed sequence. One call runs from start to end: cancellation of the call, and
  exceptions raised by logging or sleeping, are outside the model; so is the throttling of
  the log handler. The properties proved are about control flow and about equalities
  between a delay and the expression the code computes it by; no bound that the rounding of
  a product could break is stated.
\<close>

subsection \<open>Exceptions, outcomes and the world\<close>

text \<open>
  \<open>RateLimitException msg cause\<close>: the message and the \<open>__cause__\<close> set by
  \<open>raise ... from ...\<close> (\<open>None\<close> when there is none).
  \<open>UnboundLocalError v\<close>: Python's error for reading the local variable \<open>v\<close> before
  any assignment. \<open>OtherException kind payload\<close>: every other exception.
\<close>

datatype exn =
    RateLimitException string "exn option"
  | UnboundLocalError string
  | OtherException string string

datatype 'r outcome = Return 'r | Raise exn

text \<open>
  \<open>Invoke\<close>: the body of a user function ran once.
  \<open>Warning num_retries max_retries delay\<close>: the three arguments of the \<open>log.warning\<close> call.
  \<open>Sleep d\<close>: \<open>await asyncio.sleep(d)\<close>.
\<close>

datatype event = Invoke | Warning int int real | Sleep real

record 'u world =
  user :: 'u
  random_values :: "nat \<Rightarrow> real"
  draws :: nat
  trace :: "event list"

text \<open>A user function reads and writes the user state only; running it leaves an \<open>Invoke\<close>.\<close>

definition user_function ::
  "('s \<Rightarrow> 'a \<Rightarrow> 'u \<Rightarrow> 'r outcome \<times> 'u) \<Rightarrow> 's \<Rightarrow> 'a \<Rightarrow> 'u world \<Rightarrow> 'r outcome \<times> 'u world" where
  "user_function f self args w =
     (case f self args (user w) of
        (res, u') \<Rightarrow> (res, w\<lparr>user := u', trace := trace w @ [Invoke]\<rparr>))"

definition random_random :: "'u world \<Rightarrow> real \<times> 'u world" where
  "random_random w = (random_values w (draws w), w\<lparr>draws := Suc (draws w)\<rparr>)"

definition log_warning :: "int \<Rightarrow> int \<Rightarrow> real \<Rightarrow> 'u world \<Rightarrow> 'u world" where
  "log_warning num_retries max_retries d w = w\<lparr>trace := trace w @ [Warning num_retries max_retries d]\<rparr>"

definition asyncio_sleep :: "real \<Rightarrow> 'u world \<Rightarrow> 'u world" where
  "asyncio_sleep d w = w\<lparr>trace := trace w @ [Sleep d]\<rparr>"

subsection \<open>Operation A: \<open>retry_function_with_exponential_backoff\<close>\<close>

text \<open>
  The \<open>for num_retries in range(1, max_retries + 1)\<close> loop of \<open>exponential_delay\<close>, as a
  recursion over the remaining values of \<open>num_retries\<close>. The locals are \<open>initial_delay\<close>
  (the running delay) and \<open>last_exception\<close> (\<open>None\<close> while it is unbound). The first
  equation is the statement after the loop, \<open>raise RateLimitException(...) from last_exception\<close>.
\<close>

fun retry_loop ::
  "('s \<Rightarrow> 'a \<Rightarrow> 'u world \<Rightarrow> 'r outcome \<times> 'u world) \<Rightarrow> int \<Rightarrow> real \<Rightarrow> bool \<Rightarrow> 's \<Rightarrow> 'a \<Rightarrow>
   int list \<Rightarrow> real \<Rightarrow> exn option \<Rightarrow> 'u world \<Rightarrow> 'r outcome \<times> 'u world" where
  "retry_loop func max_retries exponential_base jitter self args [] initial_delay last_exception w =
     (case last_exception of
        None \<Rightarrow> (Raise (UnboundLocalError ''last_exception''), w)
      | Some e \<Rightarrow> (Raise (RateLimitException ''Rate limit error after max retries.'' (Some e)), w))"
| "retry_loop func max_retries exponential_base jitter self args (num_retries # rest) initial_delay last_exception w =
     (case func self args w of
        (Return v, w1) \<Rightarrow> (Return v, w1)
      | (Raise (RateLimitException m c), w1) \<Rightarrow>
          (case random_random w1 of
             (r, w2) \<Rightarrow>
               (let initial_delay' = initial_delay * (exponential_base * (1 + of_bool jitter * r));
                    w3 = log_warning num_retries max_retries initial_delay' w2;
                    w4 = asyncio_sleep initial_delay' w3
                in retry_loop func max_retries exponential_base jitter self args rest
                     initial_delay' (Some (RateLimitException m c)) w4))
      | (Raise e, w1) \<Rightarrow> (Raise e, w1))"

definition exponential_delay ::
  "('s \<Rightarrow> 'a \<Rightarrow> 'u world \<Rightarrow> 'r outcome \<times> 'u world) \<Rightarrow> int \<Rightarrow> real \<Rightarrow> real \<Rightarrow> bool \<Rightarrow>
   's \<Rightarrow> 'a \<Rightarrow> 'u world \<Rightarrow> 'r outcome \<times> 'u world" where
  "exponential_delay func max_retries delay exponential_base jitter self args w =
     retry_loop func max_retries exponential_base jitter self args [1..max_retries] delay None w"

definition retry_function_with_exponential_backoff ::
  "('s \<Rightarrow> 'a \<Rightarrow> 'u world \<Rightarrow> 'r outcome \<times> 'u world) \<Rightarrow> int \<Rightarrow> real \<Rightarrow> real \<Rightarrow> bool \<Rightarrow>
   ('s \<Rightarrow> 'a \<Rightarrow> 'u world \<Rightarrow> 'r outcome \<times> 'u world)" where
  "retry_function_with_exponential_backoff func max_retries delay exponential_base jitter =
     exponential_delay func max_retries delay exponential_base jitter"

subsection \<open>Operation B: \<open>retry_with_exponential_backoff\<close>\<close>

text \<open>
  A receiver is an object in the store; its four policy attributes are read by
  \<open>self.initial_delay\<close>, \<open>self.max_retries\<close>, \<open>self.exponential_base\<close>, \<open>self.jitter\<close>.
  The store is part of the user state, so a user function may assign to the attributes.
\<close>

record connector =
  initial_delay :: real
  max_retries :: int
  exponential_base :: real
  jitter :: bool

type_synonym ref = nat

record store =
  objects :: "ref \<Rightarrow> connector"

text \<open>The body of the inner function \<open>_wrapper\<close>; \<open>func\<close> is its free variable.\<close>

definition wrapper ::
  "(ref \<Rightarrow> 'a \<Rightarrow> 'z store_scheme world \<Rightarrow> 'r outcome \<times> 'z store_scheme world) \<Rightarrow>
   ref \<Rightarrow> 'a \<Rightarrow> 'z store_scheme world \<Rightarrow> 'r outcome \<times> 'z store_scheme world" where
  "wrapper func self args w =
     (let delay' = initial_delay (objects (user w) self);
          max_retries' = max_retries (objects (user w) self);
          exponential_base' = exponential_base (objects (user w) self);
          jitter' = jitter (objects (user w) self)
      in retry_function_with_exponential_backoff func max_retries' delay' exponential_base' jitter'
           self args w)"

text \<open>
  Function objects. \<open>Plain n f\<close> is a function written by the user, with its own code
  object \<open>UserCode n\<close> and body \<open>f\<close>. \<open>Wrapper g\<close> is a closure of \<open>_wrapper\<close> whose free
  variable \<open>func\<close> is \<open>g\<close>; every such closure shares the one code object of \<open>_wrapper\<close>
  (\<open>functools.wraps\<close> does not copy \<open>__code__\<close>).
\<close>

datatype code_object = UserCode nat | WrapperCode

datatype ('a, 'u, 'r) callable =
    Plain nat "ref \<Rightarrow> 'a \<Rightarrow> 'u \<Rightarrow> 'r outcome \<times> 'u"
  | Wrapper "('a, 'u, 'r) callable"

fun code_of :: "('a, 'u, 'r) callable \<Rightarrow> code_object" where
  "code_of (Plain n f) = UserCode n"
| "code_of (Wrapper g) = WrapperCode"

fun call ::
  "('a, 'z store_scheme, 'r) callable \<Rightarrow> ref \<Rightarrow> 'a \<Rightarrow> 'z store_scheme world \<Rightarrow>
   'r outcome \<times> 'z store_scheme world" where
  "call (Plain n f) = user_function f"
| "call (Wrapper g) = wrapper (call g)"

definition retry_with_exponential_backoff ::
  "('a, 'u, 'r) callable \<Rightarrow> ('a, 'u, 'r) callable" where
  "retry_with_exponential_backoff func =
     (if code_of func = code_of (Wrapper func) then func else Wrapper func)"

subsection \<open>Observations on a run\<close>

text \<open>
  The vocabulary the properties are stated in. \<open>rate_limited\<close> is the test of the
  \<open>except RateLimitException\<close> clause. \<open>user_after f self args n u\<close> is the user state
  after \<open>n\<close> invocations of the user function from \<open>u\<close>, and \<open>outcome_at f self args n u\<close> is
  what invocation number \<open>n + 1\<close> returns or raises. \<open>new_events m w\<close> are the events the
  computation \<open>m\<close> adds to the trace of \<open>w\<close>; \<open>sleeps\<close> keeps the slept delays of a trace, in
  order, and \<open>invocations\<close> counts the runs of the user function body.
\<close>

fun rate_limited :: "'r outcome \<Rightarrow> bool" where
  "rate_limited (Raise (RateLimitException m c)) = True"
| "rate_limited _ = False"

primrec user_after :: "('s \<Rightarrow> 'a \<Rightarrow> 'u \<Rightarrow> 'r outcome \<times> 'u) \<Rightarrow> 's \<Rightarrow> 'a \<Rightarrow> nat \<Rightarrow> 'u \<Rightarrow> 'u" where
  "user_after f self args 0 u = u"
| "user_after f self args (Suc n) u = user_after f self args n (snd (f self args u))"

definition outcome_at :: "('s \<Rightarrow> 'a \<Rightarrow> 'u \<Rightarrow> 'r outcome \<times> 'u) \<Rightarrow> 's \<Rightarrow> 'a \<Rightarrow> nat \<Rightarrow> 'u \<Rightarrow> 'r outcome" where
  "outcome_at f self args n u = fst (f self args (user_after f self args n u))"

fun sleeps :: "event list \<Rightarrow> real list" where
  "sleeps [] = []"
| "sleeps (Sleep d # evs) = d # sleeps evs"
| "sleeps (_ # evs) = sleeps evs"

fun invocations :: "event list \<Rightarrow> nat" where
  "invocations [] = 0"
| "invocations (Invoke # evs) = Suc (invocations evs)"
| "invocations (_ # evs) = invocations evs"

definition new_events :: "('u world \<Rightarrow> 'x \<times> 'u world) \<Rightarrow> 'u world \<Rightarrow> event list" where
  "new_events m w = drop (length (trace w)) (trace (snd (m w)))"

text \<open>
  \<open>next_delay\<close> is the update \<open>initial_delay *= exponential_base * (1 + jitter * random.random())\<close>;
  \<open>delays d b j rv i n\<close> lists the \<open>n\<close> delays that \<open>n\<close> consecutive updates produce from \<open>d\<close>,
  reading the random values \<open>rv i\<close>, \<open>rv (i + 1)\<close>, ... . \<open>failures f self args ns u\<close> counts the
  rate-limit failures the loop over \<open>ns\<close> meets before it stops. \<open>failed_round\<close> is the world
  after one iteration that ended in the \<open>except\<close> clause.
\<close>

definition next_delay :: "real \<Rightarrow> real \<Rightarrow> bool \<Rightarrow> real \<Rightarrow> real" where
  "next_delay d b j r = d * (b * (1 + of_bool j * r))"

primrec delays :: "real \<Rightarrow> real \<Rightarrow> bool \<Rightarrow> (nat \<Rightarrow> real) \<Rightarrow> nat \<Rightarrow> nat \<Rightarrow> real list" where
  "delays d b j rv i 0 = []"
| "delays d b j rv i (Suc n) =
     next_delay d b j (rv i) # delays (next_delay d b j (rv i)) b j rv (Suc i) n"

fun failures :: "('s \<Rightarrow> 'a \<Rightarrow> 'u \<Rightarrow> 'r outcome \<times> 'u) \<Rightarrow> 's \<Rightarrow> 'a \<Rightarrow> 'b list \<Rightarrow> 'u \<Rightarrow> nat" where
  "failures f self args [] u = 0"
| "failures f self args (n # ns) u =
     (if rate_limited (fst (f self args u)) then Suc (failures f self args ns (snd (f self args u))) else 0)"

definition failed_round :: "int \<Rightarrow> int \<Rightarrow> real \<Rightarrow> 'u \<Rightarrow> 'u world \<Rightarrow> 'u world" where
  "failed_round n N d' u' w =
     w\<lparr>user := u', draws := Suc (draws w), trace := trace w @ [Invoke, Warning n N d', Sleep d']\<rparr>"

subsection \<open>Example operations\<close>

text \<open>
  Operations on a call counter, used to instantiate the theorems. \<open>always_rate_limited\<close> raises
  a rate-limit failure on every invocation; the failure of invocation \<open>i\<close> carries \<open>i\<close>
  exclamation marks, so that the instances can be told apart. \<open>fails_then n out\<close> does the same
  \<open>n\<close> times and yields \<open>out\<close> from then on. In \<open>world0\<close> nothing has happened yet and
  \<open>random.random()\<close> always returns one half.
\<close>

definition always_rate_limited :: "unit \<Rightarrow> unit \<Rightarrow> nat \<Rightarrow> string outcome \<times> nat" where
  "always_rate_limited self args u = (Raise (RateLimitException (replicate (Suc u) CHR ''!'') None), Suc u)"

definition fails_then :: "nat \<Rightarrow> 'r outcome \<Rightarrow> unit \<Rightarrow> unit \<Rightarrow> nat \<Rightarrow> 'r outcome \<times> nat" where
  "fails_then n out self args u =
     (if u < n then Raise (RateLimitException (replicate (Suc u) CHR ''!'') None) else out, Suc u)"

definition world0 :: "nat world" where
  "world0 = \<lparr>user = 0, random_values = (\<lambda>i. 1 / 2), draws = 0, trace = []\<rparr>"

text \<open>
  A connector method that is always rate limited and, each time it runs, raises its receiver's
  \<open>max_retries\<close> by one; and a world whose receivers all start with \<open>max_retries = 2\<close>,
  \<open>initial_delay = 1\<close>, \<open>exponential_base = 2\<close> and no jitter.
\<close>

definition bumping_method :: "ref \<Rightarrow> unit \<Rightarrow> store \<Rightarrow> string outcome \<times> store" where
  "bumping_method self args s =
     (Raise (RateLimitException ''429'' None),
      s\<lparr>objects := (objects s)(self := (objects s self)\<lparr>max_retries := max_retries (objects s self) + 1\<rparr>)\<rparr>)"

definition store_world0 :: "store world" where
  "store_world0 =
     \<lparr>user = \<lparr>objects = (\<lambda>r. \<lparr>initial_delay = 1, max_retries = 2, exponential_base = 2, jitter = False\<rparr>)\<rparr>,
      random_values = (\<lambda>i. 1 / 2), draws = 0, trace = []\<rparr>"

section \<open>Properties of the retry loop\<close>

subsection \<open>Traces and the example operations\<close>

lemma sleeps_append: "sleeps (xs @ ys) = sleeps xs @ sleeps ys"
  by (induction xs rule: sleeps.induct) auto

lemma invocations_append: "invocations (xs @ ys) = invocations xs + invocations ys"
  by (induction xs rule: invocations.induct) auto

lemma new_events_append:
  assumes "trace (snd (m w)) = trace w @ evs"
  shows "new_events m w = evs"
  using assms by (simp add: new_events_def)

lemma outcome_at_0: "outcome_at f self args 0 u = fst (f self args u)"
  by (simp add: outcome_at_def)

lemma outcome_at_Suc: "outcome_at f self args (Suc n) u = outcome_at f self args n (snd (f self args u))"
  by (simp add: outcome_at_def)

lemma rate_limited_iff: "rate_limited x \<longleftrightarrow> (\<exists>m c. x = Raise (RateLimitException m c))"
  by (cases x rule: rate_limited.cases) auto

lemma failed_round_simps [simp]:
  "user (failed_round n N d' u' w) = u'"
  "draws (failed_round n N d' u' w) = Suc (draws w)"
  "random_values (failed_round n N d' u' w) = random_values w"
  "trace (failed_round n N d' u' w) = trace w @ [Invoke, Warning n N d', Sleep d']"
  by (simp_all add: failed_round_def)

lemma length_range: "length [1..N] = nat N"
  by simp

lemma length_delays: "length (delays d b j rv i n) = n"
  by (induction n arbitrary: d i) simp_all

lemma user_after_fails_then: "user_after (fails_then n out) self args i u = u + i"
  by (induction i arbitrary: u) (simp_all add: fails_then_def)

lemma outcome_at_fails_then:
  "outcome_at (fails_then n out) self args i u =
     (if u + i < n then Raise (RateLimitException (replicate (Suc (u + i)) CHR ''!'') None) else out)"
  by (simp add: outcome_at_def user_after_fails_then) (simp add: fails_then_def)

lemma outcome_at_always_rate_limited:
  "outcome_at always_rate_limited self args i u =
     Raise (RateLimitException (replicate (Suc (u + i)) CHR ''!'') None)"
proof -
  have "user_after always_rate_limited self args i u = u + i"
    by (induction i arbitrary: u) (simp_all add: always_rate_limited_def)
  then show ?thesis by (simp add: outcome_at_def) (simp add: always_rate_limited_def)
qed

subsection \<open>One iteration\<close>

text \<open>
  An iteration either ends in the \<open>except\<close> clause and goes on with the next value of
  \<open>num_retries\<close>, or leaves the function with what the user function returned or raised.
\<close>

lemma loop_step_fail:
  assumes "f self args (user w) = (Raise (RateLimitException m c), u')"
  shows "retry_loop (user_function f) N b j self args (n # ns) d le w =
         retry_loop (user_function f) N b j self args ns
           (next_delay d b j (random_values w (draws w)))
           (Some (RateLimitException m c))
           (failed_round n N (next_delay d b j (random_values w (draws w))) u' w)"
  using assms
  by (simp add: user_function_def random_random_def log_warning_def asyncio_sleep_def Let_def
      next_delay_def failed_round_def)

lemma loop_step_stop:
  assumes "\<not> rate_limited (fst (f self args (user w)))"
  shows "retry_loop (user_function f) N b j self args (n # ns) d le w =
         (fst (f self args (user w)), w\<lparr>user := snd (f self args (user w)), trace := trace w @ [Invoke]\<rparr>)"
  using assms
  by (cases "f self args (user w)")
     (auto simp add: user_function_def split: outcome.splits exn.splits)

declare retry_loop.simps(2) [simp del]

subsection \<open>The whole loop\<close>

lemma loop_trace:
  "\<exists>evs. trace (snd (retry_loop (user_function f) N b j self args ns d le w)) = trace w @ evs"
proof (induction ns arbitrary: d le w)
  case Nil
  show ?case by (simp split: option.splits)
next
  case (Cons n ns)
  show ?case
  proof (cases "rate_limited (fst (f self args (user w)))")
    case True
    then obtain m c u' where o: "f self args (user w) = (Raise (RateLimitException m c), u')"
      by (metis rate_limited_iff prod.collapse)
    from Cons.IH obtain evs where
      "trace (snd (retry_loop (user_function f) N b j self args ns
                (next_delay d b j (random_values w (draws w))) (Some (RateLimitException m c))
                (failed_round n N (next_delay d b j (random_values w (draws w))) u' w))) =
       trace (failed_round n N (next_delay d b j (random_values w (draws w))) u' w) @ evs"
      by blast
    then show ?thesis
      by (simp add: loop_step_fail[where f=f and self=self and args=args and w=w, OF o])
  next
    case False
    then show ?thesis by (simp add: loop_step_stop)
  qed
qed

lemma loop_sleeps:
  "sleeps (trace (snd (retry_loop (user_function f) N b j self args ns d le w))) =
   sleeps (trace w) @ delays d b j (random_values w) (draws w) (failures f self args ns (user w))"
proof (induction ns arbitrary: d le w)
  case Nil
  show ?case by (simp split: option.splits)
next
  case (Cons n ns)
  show ?case
  proof (cases "rate_limited (fst (f self args (user w)))")
    case True
    then obtain m c u' where o: "f self args (user w) = (Raise (RateLimitException m c), u')"
      by (metis rate_limited_iff prod.collapse)
    show ?thesis
      by (simp add: loop_step_fail[where f=f and self=self and args=args and w=w, OF o] Cons.IH o sleeps_append)
  next
    case False
    then show ?thesis by (simp add: loop_step_stop sleeps_append)
  qed
qed

lemma loop_invocations:
  "invocations (trace (snd (retry_loop (user_function f) N b j self args ns d le w))) =
   invocations (trace w) + min (length ns) (Suc (failures f self args ns (user w)))"
proof (induction ns arbitrary: d le w)
  case Nil
  show ?case by (simp split: option.splits)
next
  case (Cons n ns)
  show ?case
  proof (cases "rate_limited (fst (f self args (user w)))")
    case True
    then obtain m c u' where o: "f self args (user w) = (Raise (RateLimitException m c), u')"
      by (metis rate_limited_iff prod.collapse)
    show ?thesis
      by (simp add: loop_step_fail[where f=f and self=self and args=args and w=w, OF o] Cons.IH o invocations_append)
  next
    case False
    then show ?thesis by (simp add: loop_step_stop invocations_append)
  qed
qed

lemma failures_all:
  "(\<forall>i < length ns. rate_limited (outcome_at f self args i u)) \<Longrightarrow> failures f self args ns u = length ns"
proof (induction ns arbitrary: u)
  case Nil
  show ?case by simp
next
  case (Cons n ns)
  from Cons.prems have h0: "rate_limited (fst (f self args u))"
    by (metis length_greater_0_conv list.distinct(1) outcome_at_0)
  from Cons.prems have "\<forall>i < length ns. rate_limited (outcome_at f self args i (snd (f self args u)))"
    by (metis Suc_less_eq length_Cons outcome_at_Suc)
  with Cons.IH h0 show ?case by simp
qed

lemma failures_first:
  "k < length ns \<Longrightarrow> (\<forall>i < k. rate_limited (outcome_at f self args i u)) \<Longrightarrow>
   \<not> rate_limited (outcome_at f self args k u) \<Longrightarrow> failures f self args ns u = k"
proof (induction ns arbitrary: u k)
  case Nil
  then show ?case by simp
next
  case (Cons n ns)
  show ?case
  proof (cases k)
    case 0
    with Cons.prems show ?thesis by (simp add: outcome_at_0)
  next
    case (Suc k')
    with Cons.prems have h0: "rate_limited (fst (f self args u))"
      by (metis outcome_at_0 zero_less_Suc)
    from Suc Cons.prems have "\<forall>i < k'. rate_limited (outcome_at f self args i (snd (f self args u)))"
      by (metis Suc_less_eq outcome_at_Suc)
    moreover from Suc Cons.prems have "\<not> rate_limited (outcome_at f self args k' (snd (f self args u)))"
      by (simp add: outcome_at_Suc)
    moreover from Suc Cons.prems have "k' < length ns" by simp
    ultimately have "failures f self args ns (snd (f self args u)) = k'"
      using Cons.IH by blast
    with h0 Suc show ?thesis by simp
  qed
qed

lemma failures_Cons_all:
  assumes "failures f self args (n # ns) u = length (n # ns)"
  shows "rate_limited (fst (f self args u))" and "failures f self args ns (snd (f self args u)) = length ns"
  using assms by (auto split: if_splits)

lemma failures_always_rate_limited:
  "failures always_rate_limited self args [1..N] u = nat N"
proof -
  have "failures always_rate_limited self args [1..N] u = length [1..N]"
    by (intro failures_all) (simp add: outcome_at_always_rate_limited)
  then show ?thesis by simp
qed

lemma loop_exhausted_Some:
  "failures f self args ns (user w) = length ns \<Longrightarrow>
   \<exists>e. fst (retry_loop (user_function f) N b j self args ns d (Some e0) w) =
          Raise (RateLimitException ''Rate limit error after max retries.'' (Some e)) \<and>
       (ns = [] \<longrightarrow> e = e0) \<and>
       (ns \<noteq> [] \<longrightarrow> outcome_at f self args (length ns - 1) (user w) = Raise e)"
proof (induction ns arbitrary: d e0 w)
  case Nil
  show ?case by simp
next
  case (Cons n ns)
  from Cons.prems have rl: "rate_limited (fst (f self args (user w)))"
    and rest: "failures f self args ns (snd (f self args (user w))) = length ns"
    by (rule failures_Cons_all)+
  from rl obtain m c u' where o: "f self args (user w) = (Raise (RateLimitException m c), u')"
    by (metis rate_limited_iff prod.collapse)
  let ?d = "next_delay d b j (random_values w (draws w))"
  let ?w = "failed_round n N ?d u' w"
  from rest o have "failures f self args ns (user ?w) = length ns" by simp
  from Cons.IH[OF this, of ?d "RateLimitException m c"] obtain e where
    e: "fst (retry_loop (user_function f) N b j self args ns ?d (Some (RateLimitException m c)) ?w) =
          Raise (RateLimitException ''Rate limit error after max retries.'' (Some e))"
       "ns = [] \<longrightarrow> e = RateLimitException m c"
       "ns \<noteq> [] \<longrightarrow> outcome_at f self args (length ns - 1) (user ?w) = Raise e"
    by blast
  have "outcome_at f self args (length (n # ns) - 1) (user w) = Raise e"
  proof (cases ns)
    case Nil
    with e(2) o show ?thesis by (simp add: outcome_at_0)
  next
    case (Cons n' ns')
    with e(3) o show ?thesis by (simp add: outcome_at_Suc)
  qed
  with e(1) show ?case
    by (simp add: loop_step_fail[where f=f and self=self and args=args and w=w, OF o])
qed

lemma loop_exhausted:
  assumes "ns \<noteq> []" and "failures f self args ns (user w) = length ns"
  shows "\<exists>e. fst (retry_loop (user_function f) N b j self args ns d le w) =
          Raise (RateLimitException ''Rate limit error after max retries.'' (Some e)) \<and>
          outcome_at f self args (length ns - 1) (user w) = Raise e"
proof -
  from assms(1) obtain n ns' where ns: "ns = n # ns'" by (cases ns) auto
  with assms(2) have all: "failures f self args (n # ns') (user w) = length (n # ns')"
    by simp
  have rl: "rate_limited (fst (f self args (user w)))"
    and rest: "failures f self args ns' (snd (f self args (user w))) = length ns'"
    by (rule failures_Cons_all[OF all])+
  from rl obtain m c u' where o: "f self args (user w) = (Raise (RateLimitException m c), u')"
    by (metis rate_limited_iff prod.collapse)
  let ?d = "next_delay d b j (random_values w (draws w))"
  let ?w = "failed_round n N ?d u' w"
  from rest o have "failures f self args ns' (user ?w) = length ns'" by simp
  from loop_exhausted_Some[OF this, of N b j ?d "RateLimitException m c"] obtain e where
    e: "fst (retry_loop (user_function f) N b j self args ns' ?d (Some (RateLimitException m c)) ?w) =
          Raise (RateLimitException ''Rate limit error after max retries.'' (Some e))"
       "ns' = [] \<longrightarrow> e = RateLimitException m c"
       "ns' \<noteq> [] \<longrightarrow> outcome_at f self args (length ns' - 1) (user ?w) = Raise e"
    by blast
  have "outcome_at f self args (length ns - 1) (user w) = Raise e"
  proof (cases ns')
    case Nil
    with e(2) o ns show ?thesis by (simp add: outcome_at_0)
  next
    case (Cons n'' ns'')
    with e(3) o ns show ?thesis by (simp add: outcome_at_Suc)
  qed
  with e(1) show ?thesis
    by (simp add: ns loop_step_fail[where f=f and self=self and args=args and w=w, OF o])
qed

lemma loop_exhausted_last_event:
  "ns \<noteq> [] \<Longrightarrow> failures f self args ns (user w) = length ns \<Longrightarrow>
   \<exists>evs d'. trace (snd (retry_loop (user_function f) N b j self args ns d le w)) =
             trace w @ evs @ [Sleep d']"
proof (induction ns arbitrary: d le w)
  case Nil
  then show ?case by simp
next
  case (Cons n ns)
  have rl: "rate_limited (fst (f self args (user w)))"
    and rest: "failures f self args ns (snd (f self args (user w))) = length ns"
    by (rule failures_Cons_all[OF Cons.prems(2)])+
  from rl obtain m c u' where o: "f self args (user w) = (Raise (RateLimitException m c), u')"
    by (metis rate_limited_iff prod.collapse)
  let ?d = "next_delay d b j (random_values w (draws w))"
  let ?w = "failed_round n N ?d u' w"
  show ?case
  proof (cases "ns = []")
    case True
    have "trace (snd (retry_loop (user_function f) N b j self args [] ?d (Some (RateLimitException m c)) ?w)) =
          trace w @ [Invoke, Warning n N ?d] @ [Sleep ?d]"
      by simp
    then show ?thesis
      unfolding loop_step_fail[where f=f and self=self and args=args and w=w, OF o] True
      by blast
  next
    case False
    from rest o have "failures f self args ns (user ?w) = length ns" by simp
    from Cons.IH[OF False this, of ?d "Some (RateLimitException m c)"] obtain evs d' where
      "trace (snd (retry_loop (user_function f) N b j self args ns ?d (Some (RateLimitException m c)) ?w)) =
         trace ?w @ evs @ [Sleep d']"
      by blast
    then have "trace (snd (retry_loop (user_function f) N b j self args ns ?d (Some (RateLimitException m c)) ?w)) =
         trace w @ ([Invoke, Warning n N ?d, Sleep ?d] @ evs) @ [Sleep d']"
      by simp
    then show ?thesis
      unfolding loop_step_fail[where f=f and self=self and args=args and w=w, OF o]
      by blast
  qed
qed

lemma loop_stopped:
  "k < length ns \<Longrightarrow> (\<forall>i < k. rate_limited (outcome_at f self args i (user w))) \<Longrightarrow>
   \<not> rate_limited (outcome_at f self args k (user w)) \<Longrightarrow>
   fst (retry_loop (user_function f) N b j self args ns d le w) = outcome_at f self args k (user w) \<and>
   user (snd (retry_loop (user_function f) N b j self args ns d le w)) = user_after f self args (Suc k) (user w) \<and>
   (\<exists>evs. trace (snd (retry_loop (user_function f) N b j self args ns d le w)) = trace w @ evs @ [Invoke])"
proof (induction ns arbitrary: k d le w)
  case Nil
  then show ?case by simp
next
  case (Cons n ns)
  show ?case
  proof (cases k)
    case 0
    with Cons.prems have "\<not> rate_limited (fst (f self args (user w)))"
      by (simp add: outcome_at_0)
    then show ?thesis
      using 0 by (simp add: loop_step_stop outcome_at_0)
  next
    case (Suc k')
    with Cons.prems have rl: "rate_limited (fst (f self args (user w)))"
      by (metis outcome_at_0 zero_less_Suc)
    then obtain m c u' where o: "f self args (user w) = (Raise (RateLimitException m c), u')"
      by (metis rate_limited_iff prod.collapse)
    let ?d = "next_delay d b j (random_values w (draws w))"
    let ?w = "failed_round n N ?d u' w"
    have a: "\<forall>i < k'. rate_limited (outcome_at f self args i (user ?w))"
    proof (intro allI impI)
      fix i assume "i < k'"
      with Suc have "Suc i < k" by simp
      with Cons.prems(2) have "rate_limited (outcome_at f self args (Suc i) (user w))" by blast
      with o show "rate_limited (outcome_at f self args i (user ?w))"
        by (simp add: outcome_at_Suc)
    qed
    from Suc Cons.prems o have b: "\<not> rate_limited (outcome_at f self args k' (user ?w))"
      by (simp add: outcome_at_Suc)
    from Suc Cons.prems have c: "k' < length ns" by simp
    from Cons.IH[OF c a b, of ?d "Some (RateLimitException m c)"] obtain evs where
      r: "fst (retry_loop (user_function f) N b j self args ns ?d (Some (RateLimitException m c)) ?w) =
            outcome_at f self args k' (user ?w)"
         "user (snd (retry_loop (user_function f) N b j self args ns ?d (Some (RateLimitException m c)) ?w)) =
            user_after f self args (Suc k') (user ?w)"
         "trace (snd (retry_loop (user_function f) N b j self args ns ?d (Some (RateLimitException m c)) ?w)) =
            trace ?w @ evs @ [Invoke]"
      by blast
    from r(3) have "trace (snd (retry_loop (user_function f) N b j self args ns ?d (Some (RateLimitException m c)) ?w)) =
            trace w @ ([Invoke, Warning n N ?d, Sleep ?d] @ evs) @ [Invoke]"
      by simp
    then have "\<exists>evs. trace (snd (retry_loop (user_function f) N b j self args ns ?d (Some (RateLimitException m c)) ?w)) =
            trace w @ evs @ [Invoke]"
      by blast
    with r(1,2) o Suc show ?thesis
      unfolding loop_step_fail[where f=f and self=self and args=args and w=w, OF o]
      by (simp add: outcome_at_Suc)
  qed
qed

subsection \<open>Runs of the wrapper of Operation A\<close>

lemma run_trace:
  "trace (snd (retry_function_with_exponential_backoff (user_function f) N d b j self args w)) =
   trace w @ new_events (retry_function_with_exponential_backoff (user_function f) N d b j self args) w"
proof -
  obtain evs where e: "trace (snd (retry_function_with_exponential_backoff (user_function f) N d b j self args w)) = trace w @ evs"
    unfolding retry_function_with_exponential_backoff_def exponential_delay_def
    using loop_trace[of f N b j self args "[1..N]" d None w] by blast
  then show ?thesis by (simp add: new_events_append)
qed

lemma run_sleeps:
  "sleeps (new_events (retry_function_with_exponential_backoff (user_function f) N d b j self args) w) =
   delays d b j (random_values w) (draws w) (failures f self args [1..N] (user w))"
proof -
  have "sleeps (trace (snd (retry_function_with_exponential_backoff (user_function f) N d b j self args w))) =
        sleeps (trace w) @ delays d b j (random_values w) (draws w) (failures f self args [1..N] (user w))"
    unfolding retry_function_with_exponential_backoff_def exponential_delay_def
    by (rule loop_sleeps)
  then show ?thesis
    by (simp add: run_trace sleeps_append)
qed

lemma run_invocations:
  "invocations (new_events (retry_function_with_exponential_backoff (user_function f) N d b j self args) w) =
   min (nat N) (Suc (failures f self args [1..N] (user w)))"
proof -
  have "invocations (trace (snd (retry_function_with_exponential_backoff (user_function f) N d b j self args w))) =
        invocations (trace w) + min (length [1..N]) (Suc (failures f self args [1..N] (user w)))"
    unfolding retry_function_with_exponential_backoff_def exponential_delay_def
    by (rule loop_invocations)
  then show ?thesis
    by (simp add: run_trace invocations_append)
qed

lemma run_exhausted:
  assumes "1 \<le> N" and "\<forall>i < nat N. rate_limited (outcome_at f self args i (user w))"
  shows "\<exists>e. fst (retry_function_with_exponential_backoff (user_function f) N d b j self args w) =
              Raise (RateLimitException ''Rate limit error after max retries.'' (Some e)) \<and>
            outcome_at f self args (nat N - 1) (user w) = Raise e"
proof -
  from assms(1) have ne: "[1..N] \<noteq> []" by simp
  from assms(2) have "failures f self args [1..N] (user w) = length [1..N]"
    by (intro failures_all) simp
  from loop_exhausted[OF ne this, of N b j d None] show ?thesis
    by (simp add: retry_function_with_exponential_backoff_def exponential_delay_def)
qed

lemma run_exhausted_last_event:
  assumes "1 \<le> N" and "\<forall>i < nat N. rate_limited (outcome_at f self args i (user w))"
  shows "\<exists>evs d'. new_events (retry_function_with_exponential_backoff (user_function f) N d b j self args) w =
                    evs @ [Sleep d']"
proof -
  from assms(1) have ne: "[1..N] \<noteq> []" by simp
  from assms(2) have "failures f self args [1..N] (user w) = length [1..N]"
    by (intro failures_all) simp
  from loop_exhausted_last_event[OF ne this, of N b j d None] obtain evs d' where
    "trace (snd (retry_function_with_exponential_backoff (user_function f) N d b j self args w)) =
       trace w @ evs @ [Sleep d']"
    unfolding retry_function_with_exponential_backoff_def exponential_delay_def by blast
  then have "new_events (retry_function_with_exponential_backoff (user_function f) N d b j self args) w = evs @ [Sleep d']"
    by (rule new_events_append)
  then show ?thesis by blast
qed

lemma run_stopped:
  assumes "1 \<le> k" and "int k \<le> N"
    and "\<forall>i < k - 1. rate_limited (outcome_at f self args i (user w))"
    and "\<not> rate_limited (outcome_at f self args (k - 1) (user w))"
  shows "fst (retry_function_with_exponential_backoff (user_function f) N d b j self args w) =
           outcome_at f self args (k - 1) (user w)"
    and "invocations (new_events (retry_function_with_exponential_backoff (user_function f) N d b j self args) w) = k"
    and "length (sleeps (new_events (retry_function_with_exponential_backoff (user_function f) N d b j self args) w)) = k - 1"
    and "\<exists>evs. new_events (retry_function_with_exponential_backoff (user_function f) N d b j self args) w = evs @ [Invoke]"
proof -
  from assms(1,2) have lt: "k - 1 < length [1..N]" by simp
  from loop_stopped[OF lt assms(3,4), of N b j d None]
  show "fst (retry_function_with_exponential_backoff (user_function f) N d b j self args w) =
           outcome_at f self args (k - 1) (user w)"
    by (simp add: retry_function_with_exponential_backoff_def exponential_delay_def)
  have fl: "failures f self args [1..N] (user w) = k - 1"
    by (rule failures_first[OF lt assms(3,4)])
  from assms(1,2) show "invocations (new_events (retry_function_with_exponential_backoff (user_function f) N d b j self args) w) = k"
    by (simp add: run_invocations fl)
  show "length (sleeps (new_events (retry_function_with_exponential_backoff (user_function f) N d b j self args) w)) = k - 1"
    by (simp add: run_sleeps fl length_delays)
  from loop_stopped[OF lt assms(3,4), of N b j d None] obtain evs where
    "trace (snd (retry_function_with_exponential_backoff (user_function f) N d b j self args w)) = trace w @ evs @ [Invoke]"
    unfolding retry_function_with_exponential_backoff_def exponential_delay_def by blast
  then have "new_events (retry_function_with_exponential_backoff (user_function f) N d b j self args) w = evs @ [Invoke]"
    by (rule new_events_append)
  then show "\<exists>evs. new_events (retry_function_with_exponential_backoff (user_function f) N d b j self args) w = evs @ [Invoke]"
    by blast
qed

subsection \<open>Delay sequences\<close>

lemma delays_no_jitter_first: "0 < n \<Longrightarrow> delays d b False rv i n ! 0 = d * b"
  by (cases n) (simp_all add: next_delay_def)

lemma delays_no_jitter_step:
  "Suc k < n \<Longrightarrow> delays d b False rv i n ! Suc k = delays d b False rv i n ! k * b"
proof (induction n arbitrary: d i k)
  case 0
  then show ?case by simp
next
  case (Suc n)
  show ?case
  proof (cases k)
    case 0
    with Suc.prems have "0 < n" by simp
    then show ?thesis using 0 by (simp add: delays_no_jitter_first)
  next
    case (Suc k')
    with Suc.prems have "Suc k' < n" by simp
    then show ?thesis using Suc Suc.IH by simp
  qed
qed



lemma delays_example: "delays 1 2 False rv i 3 = [2, 4, 8]"
  by (simp add: numeral_3_eq_3 next_delay_def)

lemma range_2: "[1..2] = [1, 2::int]"
  by (simp add: upto.simps)

lemma range_3: "[1..3] = [1, 2, 3::int]"
  by (simp add: upto.simps)

lemma range_4: "[1..4] = [1, 2, 3, 4::int]"
  by (simp add: upto.simps)



lemma sleeps_no_jitter_example:
  "sleeps (new_events (retry_function_with_exponential_backoff (user_function always_rate_limited)
      3 1 2 False () ()) world0) = [2, 4, 8]"
  by (simp add: run_sleeps failures_always_rate_limited delays_example)


section \<open>The claims\<close>

subsection \<open>C1: three attempts, always rate limited\<close>

text \<open>
  C1: with \<open>max_retries = 3\<close>, \<open>delay = 1.0\<close>, \<open>exponential_base = 2.0\<close>, \<open>jitter = False\<close> and an
  operation that is rate limited on every attempt, exactly two waits occur, of 2 and 4
  seconds, and the error is raised after the third attempt with no wait after it. The code
  does not behave so. On this input the third and last attempt is followed by the warning
  for retry 3 of 3, which announces a wait of 8 seconds, and by that wait; the error is raised
  only afterwards, and no attempt follows the wait. The events of the run, evaluated:
\<close>

theorem final_attempt_followed_by_wait:
  "new_events (retry_function_with_exponential_backoff (user_function always_rate_limited)
      3 1 2 False () ()) world0 =
     [Invoke, Warning 1 3 2, Sleep 2, Invoke, Warning 2 3 4, Sleep 4, Invoke, Warning 3 3 8, Sleep 8] \<and>
   sleeps (new_events (retry_function_with_exponential_backoff (user_function always_rate_limited)
      3 1 2 False () ()) world0) \<noteq> [2, 4]"
proof -
  have "new_events (retry_function_with_exponential_backoff (user_function always_rate_limited)
      3 1 2 False () ()) world0 =
     [Invoke, Warning 1 3 2, Sleep 2, Invoke, Warning 2 3 4, Sleep 4, Invoke, Warning 3 3 8, Sleep 8]"
    by (simp add: new_events_def retry_function_with_exponential_backoff_def exponential_delay_def
        range_3 retry_loop.simps(2) user_function_def always_rate_limited_def world0_def
        random_random_def log_warning_def asyncio_sleep_def Let_def)
  then show ?thesis by simp
qed

text \<open>
  The code does the same for every operation that is rate limited on its three invocations:
  three waits, the last one after the final attempt.
\<close>

lemma three_waits_then_exhausted:
  assumes "\<forall>i < 3. rate_limited (outcome_at f self args i (user w))"
  shows "sleeps (new_events (retry_function_with_exponential_backoff (user_function f) 3 1 2 False self args) w) = [2, 4, 8] \<and>
         invocations (new_events (retry_function_with_exponential_backoff (user_function f) 3 1 2 False self args) w) = 3 \<and>
         (\<exists>e. outcome_at f self args 2 (user w) = Raise e \<and>
              fst (retry_function_with_exponential_backoff (user_function f) 3 1 2 False self args w) =
                Raise (RateLimitException ''Rate limit error after max retries.'' (Some e))) \<and>
         (\<exists>evs. new_events (retry_function_with_exponential_backoff (user_function f) 3 1 2 False self args) w =
                  evs @ [Sleep 8])"
proof -
  let ?run = "retry_function_with_exponential_backoff (user_function f) 3 1 2 False self args"
  have N: "(1::int) \<le> 3" by simp
  from assms have all: "\<forall>i < nat 3. rate_limited (outcome_at f self args i (user w))" by simp
  then have fl: "failures f self args [1..3] (user w) = length [1..3::int]"
    by (intro failures_all) simp
  then have s: "sleeps (new_events ?run w) = [2, 4, 8]"
    by (simp add: run_sleeps delays_example)
  from fl have i: "invocations (new_events ?run w) = 3"
    by (simp add: run_invocations)
  from run_exhausted[OF N all, of 1 2 False] have r:
    "\<exists>e. outcome_at f self args 2 (user w) = Raise e \<and>
         fst (?run w) = Raise (RateLimitException ''Rate limit error after max retries.'' (Some e))"
    by auto
  from run_exhausted_last_event[OF N all, of 1 2 False] obtain evs d' where
    l: "new_events ?run w = evs @ [Sleep d']" by blast
  with s have "sleeps evs @ [d'] = [2, 4, 8]" by (simp add: sleeps_append)
  then have "last (sleeps evs @ [d']) = last [2, 4, 8 :: real]" by (rule arg_cong)
  then have "d' = 8" by simp
  with l have "\<exists>evs. new_events ?run w = evs @ [Sleep 8]" by blast
  with s i r show ?thesis by blast
qed

subsection \<open>C2: exhaustion after N attempts\<close>

text \<open>
  C2: for every \<open>max_retries = N \<ge> 1\<close>, if each of the first \<open>N\<close> invocations of the operation
  raises the rate-limit failure, the wrapper invokes the operation exactly \<open>N\<close> times and raises
  the retry-exhausted error whose cause is the failure raised by invocation \<open>N\<close>.
\<close>

theorem always_rate_limited_exhausts:
  assumes "1 \<le> N" and "\<forall>i < nat N. rate_limited (outcome_at f self args i (user w))"
  shows "invocations (new_events (retry_function_with_exponential_backoff (user_function f) N d b j self args) w) = nat N \<and>
         (\<exists>e. outcome_at f self args (nat N - 1) (user w) = Raise e \<and>
              fst (retry_function_with_exponential_backoff (user_function f) N d b j self args w) =
                Raise (RateLimitException ''Rate limit error after max retries.'' (Some e)))"
proof -
  from assms(2) have "failures f self args [1..N] (user w) = length [1..N]"
    by (intro failures_all) simp
  then have "invocations (new_events (retry_function_with_exponential_backoff (user_function f) N d b j self args) w) = nat N"
    by (simp add: run_invocations)
  with run_exhausted[OF assms, of d b j] show ?thesis by blast
qed

theorem always_rate_limited_exhausts_witness:
  "(1::int) \<le> 3 \<and>
   rate_limited (outcome_at always_rate_limited () () 0 (user world0)) \<and>
   rate_limited (outcome_at always_rate_limited () () 1 (user world0)) \<and>
   rate_limited (outcome_at always_rate_limited () () 2 (user world0)) \<and>
   invocations (new_events (retry_function_with_exponential_backoff
       (user_function always_rate_limited) 3 1 2 False () ()) world0) = nat 3 \<and>
   fst (retry_function_with_exponential_backoff
       (user_function always_rate_limited) 3 1 2 False () () world0) =
     Raise (RateLimitException ''Rate limit error after max retries.''
              (Some (RateLimitException ''!!!'' None)))"
proof -
  have h1: "(1::int) \<le> 3" by simp
  have h2: "\<forall>i < nat 3. rate_limited (outcome_at always_rate_limited () () i (user world0))"
    by (simp add: outcome_at_always_rate_limited world0_def)
  have o: "outcome_at always_rate_limited () () (nat 3 - 1) (user world0) =
           Raise (RateLimitException ''!!!'' None)"
    by (simp add: outcome_at_always_rate_limited world0_def numeral_3_eq_3)
  have h3: "rate_limited (outcome_at always_rate_limited () () 0 (user world0))"
    "rate_limited (outcome_at always_rate_limited () () 1 (user world0))"
    "rate_limited (outcome_at always_rate_limited () () 2 (user world0))"
    by (simp_all add: outcome_at_always_rate_limited world0_def)
  from always_rate_limited_exhausts[OF h1 h2, of 1 2 False] h1 h3 o show ?thesis
    by simp
qed

subsection \<open>C3: success on attempt k\<close>

text \<open>
  C3: for every \<open>max_retries = N \<ge> 1\<close> and \<open>1 \<le> k \<le> N\<close>, if the first \<open>k - 1\<close> invocations
  raise the rate-limit failure and invocation \<open>k\<close> returns \<open>v\<close>, the wrapper returns \<open>v\<close>, the
  operation is invoked exactly \<open>k\<close> times, exactly \<open>k - 1\<close> waits occur, and the successful
  invocation is the last event of the run.
\<close>

theorem success_on_attempt_k:
  assumes "1 \<le> k" and "int k \<le> N"
    and "\<forall>i < k - 1. rate_limited (outcome_at f self args i (user w))"
    and "outcome_at f self args (k - 1) (user w) = Return v"
  shows "fst (retry_function_with_exponential_backoff (user_function f) N d b j self args w) = Return v \<and>
         invocations (new_events (retry_function_with_exponential_backoff (user_function f) N d b j self args) w) = k \<and>
         length (sleeps (new_events (retry_function_with_exponential_backoff (user_function f) N d b j self args) w)) = k - 1 \<and>
         (\<exists>evs. new_events (retry_function_with_exponential_backoff (user_function f) N d b j self args) w = evs @ [Invoke])"
proof -
  from assms(4) have nr: "\<not> rate_limited (outcome_at f self args (k - 1) (user w))" by simp
  from run_stopped[OF assms(1,2,3) nr, of d b j] assms(4) show ?thesis by simp
qed

theorem success_on_attempt_k_witness:
  "(1::nat) \<le> 2 \<and> int 2 \<le> 3 \<and>
   rate_limited (outcome_at (fails_then 1 (Return ''ok'')) () () 0 (user world0)) \<and>
   outcome_at (fails_then 1 (Return ''ok'')) () () (2 - 1) (user world0) = Return ''ok'' \<and>
   fst (retry_function_with_exponential_backoff (user_function (fails_then 1 (Return ''ok''))) 3 1 2 False () () world0) = Return ''ok'' \<and>
   invocations (new_events (retry_function_with_exponential_backoff (user_function (fails_then 1 (Return ''ok''))) 3 1 2 False () ()) world0) = 2 \<and>
   length (sleeps (new_events (retry_function_with_exponential_backoff (user_function (fails_then 1 (Return ''ok''))) 3 1 2 False () ()) world0)) = 2 - 1"
proof -
  have h1: "(1::nat) \<le> 2" by simp
  have h2: "int 2 \<le> 3" by simp
  have h3: "\<forall>i < 2 - 1. rate_limited (outcome_at (fails_then 1 (Return ''ok'')) () () i (user world0))"
    by (simp add: outcome_at_fails_then world0_def)
  have h4: "outcome_at (fails_then 1 (Return ''ok'')) () () (2 - 1) (user world0) = Return ''ok''"
    by (simp add: outcome_at_fails_then world0_def)
  have h3': "rate_limited (outcome_at (fails_then 1 (Return ''ok'')) () () 0 (user world0))"
    by (simp add: outcome_at_fails_then world0_def)
  from success_on_attempt_k[OF h1 h2 h3 h4, of 1 2 False] h1 h2 h3' h4 show ?thesis by blast
qed

subsection \<open>C4: other failures propagate\<close>

text \<open>
  C4: for every \<open>max_retries = N \<ge> 1\<close> and attempt \<open>k \<le> N\<close>, if the first \<open>k - 1\<close> invocations raise
  the rate-limit failure and invocation \<open>k\<close> raises an exception \<open>e\<close> that is not a
  \<open>RateLimitException\<close>, the wrapper raises exactly \<open>e\<close>; the operation is not invoked again
  and no wait follows: the failing invocation is the last event of the run, after the \<open>k - 1\<close>
  waits of the earlier attempts.
\<close>

theorem other_failure_propagates:
  assumes "1 \<le> k" and "int k \<le> N"
    and "\<forall>i < k - 1. rate_limited (outcome_at f self args i (user w))"
    and "outcome_at f self args (k - 1) (user w) = Raise e"
    and "\<forall>m c. e \<noteq> RateLimitException m c"
  shows "fst (retry_function_with_exponential_backoff (user_function f) N d b j self args w) = Raise e \<and>
         invocations (new_events (retry_function_with_exponential_backoff (user_function f) N d b j self args) w) = k \<and>
         length (sleeps (new_events (retry_function_with_exponential_backoff (user_function f) N d b j self args) w)) = k - 1 \<and>
         (\<exists>evs. new_events (retry_function_with_exponential_backoff (user_function f) N d b j self args) w = evs @ [Invoke])"
proof -
  from assms(4,5) have nr: "\<not> rate_limited (outcome_at f self args (k - 1) (user w))"
    by (simp add: rate_limited_iff)
  from run_stopped[OF assms(1,2,3) nr, of d b j] assms(4) show ?thesis by simp
qed

theorem other_failure_propagates_witness:
  "(1::nat) \<le> 2 \<and> int 2 \<le> 3 \<and>
   rate_limited (outcome_at (fails_then 1 (Raise (OtherException ''ValueError'' ''bad request'') :: string outcome)) () () 0 (user world0)) \<and>
   outcome_at (fails_then 1 (Raise (OtherException ''ValueError'' ''bad request'') :: string outcome)) () () (2 - 1) (user world0) =
     Raise (OtherException ''ValueError'' ''bad request'') \<and>
   (\<forall>m c. OtherException ''ValueError'' ''bad request'' \<noteq> RateLimitException m c) \<and>
   fst (retry_function_with_exponential_backoff
          (user_function (fails_then 1 (Raise (OtherException ''ValueError'' ''bad request'') :: string outcome))) 3 1 2 False () () world0) =
     Raise (OtherException ''ValueError'' ''bad request'') \<and>
   invocations (new_events (retry_function_with_exponential_backoff
          (user_function (fails_then 1 (Raise (OtherException ''ValueError'' ''bad request'') :: string outcome))) 3 1 2 False () ()) world0) = 2"
proof -
  let ?f = "fails_then 1 (Raise (OtherException ''ValueError'' ''bad request'') :: string outcome)"
  have h1: "(1::nat) \<le> 2" by simp
  have h2: "int 2 \<le> 3" by simp
  have h3: "\<forall>i < 2 - 1. rate_limited (outcome_at ?f () () i (user world0))"
    by (simp add: outcome_at_fails_then world0_def)
  have h4: "outcome_at ?f () () (2 - 1) (user world0) = Raise (OtherException ''ValueError'' ''bad request'')"
    by (simp add: outcome_at_fails_then world0_def)
  have h5: "\<forall>m c. OtherException ''ValueError'' ''bad request'' \<noteq> RateLimitException m c" by simp
  have h3': "rate_limited (outcome_at ?f () () 0 (user world0))"
    by (simp add: outcome_at_fails_then world0_def)
  from other_failure_propagates[OF h1 h2 h3 h4 h5, of 1 2 False] h1 h2 h3' h4 h5 show ?thesis by blast
qed

subsection \<open>C5: no retries at all\<close>

text \<open>
  C5 expects the retry-exhausted error, without a cause, when \<open>max_retries = 0\<close>. The loop body
  never runs, \<open>last_exception\<close> is still unbound when \<open>raise ... from last_exception\<close> reads it,
  and what the wrapper raises is Python's \<open>UnboundLocalError\<close>, whatever the operation is.
\<close>

theorem zero_retries_unbound_local:
  "retry_function_with_exponential_backoff func 0 d b j self args w =
     (Raise (UnboundLocalError ''last_exception''), w)"
  by (simp add: retry_function_with_exponential_backoff_def exponential_delay_def)

subsection \<open>C6: delays without jitter\<close>

text \<open>
  C6: with \<open>jitter = False\<close> the waits of a run form a geometric sequence, whatever the
  operation does: the first wait, if there is one, is \<open>delay * exponential_base\<close>, and every
  later wait is the wait before it times \<open>exponential_base\<close>.
\<close>

theorem no_jitter_geometric:
  "(sleeps (new_events (retry_function_with_exponential_backoff (user_function f) N d b False self args) w) \<noteq> [] \<longrightarrow>
      sleeps (new_events (retry_function_with_exponential_backoff (user_function f) N d b False self args) w) ! 0 = d * b) \<and>
   (\<forall>k. Suc k < length (sleeps (new_events (retry_function_with_exponential_backoff (user_function f) N d b False self args) w)) \<longrightarrow>
      sleeps (new_events (retry_function_with_exponential_backoff (user_function f) N d b False self args) w) ! Suc k =
      sleeps (new_events (retry_function_with_exponential_backoff (user_function f) N d b False self args) w) ! k * b)"
proof -
  let ?n = "failures f self args [1..N] (user w)"
  have "delays d b False (random_values w) (draws w) ?n \<noteq> [] \<longrightarrow>
        delays d b False (random_values w) (draws w) ?n ! 0 = d * b"
    by (cases ?n) (simp_all add: next_delay_def)
  moreover have "\<forall>k. Suc k < length (delays d b False (random_values w) (draws w) ?n) \<longrightarrow>
        delays d b False (random_values w) (draws w) ?n ! Suc k =
        delays d b False (random_values w) (draws w) ?n ! k * b"
    by (simp add: length_delays delays_no_jitter_step)
  ultimately show ?thesis
    by (simp only: run_sleeps) 
qed

theorem no_jitter_geometric_witness:
  "sleeps (new_events (retry_function_with_exponential_backoff (user_function always_rate_limited) 3 1 2 False () ()) world0) \<noteq> [] \<and>
   sleeps (new_events (retry_function_with_exponential_backoff (user_function always_rate_limited) 3 1 2 False () ()) world0) ! 0 = 1 * 2 \<and>
   Suc 1 < length (sleeps (new_events (retry_function_with_exponential_backoff (user_function always_rate_limited) 3 1 2 False () ()) world0)) \<and>
   sleeps (new_events (retry_function_with_exponential_backoff (user_function always_rate_limited) 3 1 2 False () ()) world0) ! Suc 1 =
   sleeps (new_events (retry_function_with_exponential_backoff (user_function always_rate_limited) 3 1 2 False () ()) world0) ! 1 * 2"
proof -
  let ?ds = "sleeps (new_events (retry_function_with_exponential_backoff (user_function always_rate_limited) 3 1 2 False () ()) world0)"
  have h1: "?ds \<noteq> []" by (simp add: sleeps_no_jitter_example)
  have h2: "Suc 1 < length ?ds" by (simp add: sleeps_no_jitter_example)
  from no_jitter_geometric[of always_rate_limited 3 1 2 "()" "()" world0] h1 h2 show ?thesis by blast
qed

subsection \<open>C7: delays with jitter\<close>




subsection \<open>C8: wrapping twice\<close>

text \<open>
  C8: \<open>retry_with_exponential_backoff\<close> returns a function that is already a closure of
  \<open>_wrapper\<close> unchanged; hence wrapping twice gives the same function object as wrapping once,
  and calling it does what calling the singly wrapped function does.
\<close>

theorem double_wrapping_idempotent:
  "retry_with_exponential_backoff (Wrapper g) = Wrapper g \<and>
   retry_with_exponential_backoff (retry_with_exponential_backoff func) = retry_with_exponential_backoff func \<and>
   call (retry_with_exponential_backoff (retry_with_exponential_backoff func)) self args w =
     call (retry_with_exponential_backoff func) self args w"
  by (cases func) (simp_all add: retry_with_exponential_backoff_def)

subsection \<open>C9: the policy is read from the receiver at each call\<close>

text \<open>
  C9: a call of the wrapped method on the receiver \<open>self\<close> in the world \<open>w\<close> is a run of
  Operation A whose four policy values are the attributes that \<open>self\<close> has in \<open>w\<close>, the world
  at the time of the call. Decoration has no access to any receiver, and assignments to the
  attributes before the call, by an earlier call as well, are what the later call reads. The
  two equations cover the two kinds of function the decorator can be given.
\<close>

theorem policy_read_at_call_time:
  "call (retry_with_exponential_backoff (Plain n f)) self args w =
     retry_function_with_exponential_backoff (user_function f)
       (max_retries (objects (user w) self)) (initial_delay (objects (user w) self))
       (exponential_base (objects (user w) self)) (jitter (objects (user w) self)) self args w \<and>
   call (retry_with_exponential_backoff (Wrapper g)) self args w =
     retry_function_with_exponential_backoff (call g)
       (max_retries (objects (user w) self)) (initial_delay (objects (user w) self))
       (exponential_base (objects (user w) self)) (jitter (objects (user w) self)) self args w"
  by (simp add: retry_with_exponential_backoff_def wrapper_def)

text \<open>
  The number of attempts, for one, follows the attribute: against an operation that is always
  rate limited, a call makes as many attempts as the receiver's \<open>max_retries\<close> says at that
  moment.
\<close>

lemma attempts_follow_receiver_attribute:
  assumes "\<forall>u. rate_limited (fst (f self args u))"
  shows "invocations (new_events (call (retry_with_exponential_backoff (Plain n f)) self args) w) =
         nat (max_retries (objects (user w) self))"
proof -
  let ?N = "max_retries (objects (user w) self)"
  from assms have "failures f self args [1..?N] (user w) = length [1..?N]"
    by (intro failures_all) (simp add: outcome_at_def)
  then have "invocations (new_events (retry_function_with_exponential_backoff (user_function f)
       ?N (initial_delay (objects (user w) self))
       (exponential_base (objects (user w) self)) (jitter (objects (user w) self)) self args) w) = nat ?N"
    by (simp add: run_invocations)
  then show ?thesis
    by (simp add: new_events_def retry_with_exponential_backoff_def wrapper_def)
qed

text \<open>
  Two calls in a row on receiver 0, whose method raises \<open>max_retries\<close> by one whenever it runs.
  The first call read \<open>max_retries = 2\<close> when it started and makes two attempts, although the
  attribute changes while it runs; the second call starts in the world the first one left,
  reads 4 and makes four attempts.
\<close>

lemma first_call_example:
  "call (retry_with_exponential_backoff (Plain 0 bumping_method)) 0 () store_world0 =
   (Raise (RateLimitException ''Rate limit error after max retries.'' (Some (RateLimitException ''429'' None))),
    \<lparr>user = \<lparr>objects = (\<lambda>r. \<lparr>initial_delay = 1, max_retries = 2, exponential_base = 2, jitter = False\<rparr>)
                 (0 := \<lparr>initial_delay = 1, max_retries = 4, exponential_base = 2, jitter = False\<rparr>)\<rparr>,
     random_values = (\<lambda>i. 1 / 2), draws = 2,
     trace = [Invoke, Warning 1 2 2, Sleep 2, Invoke, Warning 2 2 4, Sleep 4]\<rparr>)"
  by (simp add: retry_with_exponential_backoff_def wrapper_def
      retry_function_with_exponential_backoff_def exponential_delay_def store_world0_def
      range_2 retry_loop.simps(2) user_function_def bumping_method_def
      random_random_def log_warning_def asyncio_sleep_def Let_def numeral_2_eq_2)

lemma second_call_example:
  "invocations (new_events (call (retry_with_exponential_backoff (Plain 0 bumping_method)) 0 ())
     (snd (call (retry_with_exponential_backoff (Plain 0 bumping_method)) 0 () store_world0))) = 4"
  unfolding first_call_example
  by (simp add: new_events_def retry_with_exponential_backoff_def wrapper_def
      retry_function_with_exponential_backoff_def exponential_delay_def
      range_4 retry_loop.simps(2) user_function_def bumping_method_def
      random_random_def log_warning_def asyncio_sleep_def Let_def)

subsection \<open>C10: the exhaustion error has the kind that is retried\<close>

text \<open>
  C10: the error raised on exhaustion is a \<open>RateLimitException\<close>, the kind the \<open>except\<close> clause
  catches; it differs from a failure of the operation by its message and its cause only. An
  enclosing wrapper therefore treats it as a rate-limit failure: with a budget of one attempt
  it catches the inner exhaustion error and raises its own, chained to it.
\<close>

theorem exhaustion_is_rate_limit_kind:
  assumes "1 \<le> N" and "\<forall>i < nat N. rate_limited (outcome_at f self args i (user w))"
  shows "\<exists>e. fst (retry_function_with_exponential_backoff (user_function f) N d b j self args w) =
              Raise (RateLimitException ''Rate limit error after max retries.'' (Some e)) \<and>
            rate_limited (fst (retry_function_with_exponential_backoff (user_function f) N d b j self args w)) \<and>
            fst (retry_function_with_exponential_backoff
                   (retry_function_with_exponential_backoff (user_function f) N d b j) 1 d' b' j' self args w) =
              Raise (RateLimitException ''Rate limit error after max retries.''
                (Some (RateLimitException ''Rate limit error after max retries.'' (Some e))))"
proof -
  let ?inner = "retry_function_with_exponential_backoff (user_function f) N d b j"
  from run_exhausted[OF assms, of d b j] obtain e where
    e: "fst (?inner self args w) = Raise (RateLimitException ''Rate limit error after max retries.'' (Some e))"
    by blast
  then obtain w1 where w1: "?inner self args w =
      (Raise (RateLimitException ''Rate limit error after max retries.'' (Some e)), w1)"
    by (cases "?inner self args w") simp
  have "fst (retry_function_with_exponential_backoff ?inner 1 d' b' j' self args w) =
        Raise (RateLimitException ''Rate limit error after max retries.''
                (Some (RateLimitException ''Rate limit error after max retries.'' (Some e))))"
    by (simp add: retry_function_with_exponential_backoff_def[of ?inner] exponential_delay_def[of ?inner]
        retry_loop.simps(2) w1 random_random_def Let_def)
  with e show ?thesis by simp
qed

theorem exhaustion_is_rate_limit_kind_witness:
  "(1::int) \<le> 2 \<and>
   rate_limited (outcome_at always_rate_limited () () 0 (user world0)) \<and>
   rate_limited (outcome_at always_rate_limited () () 1 (user world0)) \<and>
   rate_limited (fst (retry_function_with_exponential_backoff (user_function always_rate_limited) 2 1 2 False () () world0)) \<and>
   fst (retry_function_with_exponential_backoff (user_function always_rate_limited) 2 1 2 False () () world0) =
     Raise (RateLimitException ''Rate limit error after max retries.'' (Some (RateLimitException ''!!'' None))) \<and>
   fst (retry_function_with_exponential_backoff
          (retry_function_with_exponential_backoff (user_function always_rate_limited) 2 1 2 False) 1 1 2 False () () world0) =
     Raise (RateLimitException ''Rate limit error after max retries.''
       (Some (RateLimitException ''Rate limit error after max retries.'' (Some (RateLimitException ''!!'' None)))))"
proof -
  have h1: "(1::int) \<le> 2" by simp
  have h2: "\<forall>i < nat 2. rate_limited (outcome_at always_rate_limited () () i (user world0))"
    by (simp add: outcome_at_always_rate_limited)
  have h3: "rate_limited (outcome_at always_rate_limited () () 0 (user world0))"
    "rate_limited (outcome_at always_rate_limited () () 1 (user world0))"
    by (simp_all add: outcome_at_always_rate_limited)
  have "fst (retry_function_with_exponential_backoff (user_function always_rate_limited) 2 1 2 False () () world0) =
     Raise (RateLimitException ''Rate limit error after max retries.'' (Some (RateLimitException ''!!'' None)))"
    using run_exhausted[OF h1 h2, of 1 2 False]
    by (simp add: outcome_at_always_rate_limited world0_def numeral_2_eq_2)
  with exhaustion_is_rate_limit_kind[OF h1 h2, of 1 2 False 1 2 False] h1 h3 show ?thesis by simp
qed

end
